theory Spec2Isabelle
  imports Main "HOL-Library.Finite_Map"
begin

section \<open>Values\<close>

text \<open>
  The hooks of \<^verbatim>\<open>createReactQueryHooks.ts\<close> handle untyped JavaScript values (procedure
  inputs and outputs, cache keys). They are modelled structurally. An object is a finite
  map from property names to values, so that equality of two \<open>jsval\<close>s is deep equality
  of the values, whatever the order in which the properties of an object were written.
  Numbers are restricted to integers: no claim depends on arithmetic.
\<close>

datatype jsval =
    JUndefined
  | JNull
  | JBool bool
  | JNum int
  | JStr string
  | JArr "jsval list"
  | JObj "(string, jsval) fmap"

text \<open>JavaScript falsiness, the test of \<^verbatim>\<open>!v\<close>: undefined, null, false, zero and the
  empty string are falsy; arrays and objects are not.\<close>

fun falsy :: "jsval \<Rightarrow> bool" where
  "falsy JUndefined = True"
| "falsy JNull = True"
| "falsy (JBool b) = (\<not> b)"
| "falsy (JNum n) = (n = 0)"
| "falsy (JStr s) = (s = [])"
| "falsy (JArr xs) = False"
| "falsy (JObj m) = False"

text \<open>The nullish coalescing operator \<^verbatim>\<open>a ?? b\<close>: \<open>b\<close> when \<open>a\<close> is undefined or null.\<close>

fun nullish :: "jsval \<Rightarrow> jsval \<Rightarrow> jsval" where
  "nullish JUndefined d = d"
| "nullish JNull d = d"
| "nullish v d = v"

text \<open>
  A call shape \<^verbatim>\<open>[path, ...args]\<close>: the procedure path and the arguments that follow
  it. The destructuring \<^verbatim>\<open>const [path, input] = pathAndArgs\<close> reads the first
  argument, which is undefined when the tuple has no second element.
\<close>

type_synonym pathAndArgs = "string \<times> jsval list"

definition path_of :: "pathAndArgs \<Rightarrow> string" where
  "path_of pa = fst pa"

definition input_of :: "pathAndArgs \<Rightarrow> jsval" where
  "input_of pa = (case snd pa of [] \<Rightarrow> JUndefined | x # _ \<Rightarrow> x)"

section \<open>Cache keys\<close>

definition CACHE_KEY_INFINITE_QUERY :: string where
  "CACHE_KEY_INFINITE_QUERY = ''TRPC_INFINITE_QUERY''"

definition CACHE_KEY_LIVE_QUERY :: string where
  "CACHE_KEY_LIVE_QUERY = ''TRPC_LIVE_QUERY''"

definition CACHE_KEY_QUERY :: string where
  "CACHE_KEY_QUERY = ''TRPC_QUERY''"

type_synonym cacheKey = "jsval list"

text \<open>
  \<^verbatim>\<open>getCacheKey([path, input], extras?)\<close>. The optional \<open>extras\<close> is \<open>None\<close> when the
  argument is omitted. The test \<^verbatim>\<open>if (extras)\<close> is JavaScript truthiness, and the only
  falsy string is the empty one.
\<close>

definition truthy_extras :: "string option \<Rightarrow> bool" where
  "truthy_extras extras = (case extras of None \<Rightarrow> False | Some e \<Rightarrow> e \<noteq> [])"

definition getCacheKey :: "pathAndArgs \<Rightarrow> string option \<Rightarrow> cacheKey" where
  "getCacheKey pa extras =
     (let cacheKey = [JStr (path_of pa), nullish (input_of pa) JNull]
      in if truthy_extras extras then cacheKey @ [JStr (the extras)] else cacheKey)"

text \<open>The keys the client-side binders derive (\<^verbatim>\<open>_useQuery\<close>, \<^verbatim>\<open>_useInfiniteQuery\<close>,
  \<^verbatim>\<open>useLiveQuery\<close>).\<close>

definition useQuery_cacheKey :: "pathAndArgs \<Rightarrow> cacheKey" where
  "useQuery_cacheKey pa = getCacheKey pa (Some CACHE_KEY_QUERY)"

definition useInfiniteQuery_cacheKey :: "pathAndArgs \<Rightarrow> cacheKey" where
  "useInfiniteQuery_cacheKey pa = getCacheKey pa (Some CACHE_KEY_INFINITE_QUERY)"

definition useLiveQuery_cacheKey :: "pathAndArgs \<Rightarrow> cacheKey" where
  "useLiveQuery_cacheKey pa = getCacheKey pa (Some CACHE_KEY_LIVE_QUERY)"

text \<open>The keys of the server-side facade \<^verbatim>\<open>ssr\<close>: \<^verbatim>\<open>prefetchQuery\<close> builds its key by
  hand, \<^verbatim>\<open>prefetchInfiniteQuery\<close> calls \<^verbatim>\<open>getCacheKey\<close>.\<close>

definition ssr_prefetchQuery_cacheKey :: "pathAndArgs \<Rightarrow> cacheKey" where
  "ssr_prefetchQuery_cacheKey pa =
     [JStr (path_of pa), nullish (input_of pa) JNull, JStr CACHE_KEY_QUERY]"

definition ssr_prefetchInfiniteQuery_cacheKey :: "pathAndArgs \<Rightarrow> cacheKey" where
  "ssr_prefetchInfiniteQuery_cacheKey pa = getCacheKey pa (Some CACHE_KEY_INFINITE_QUERY)"

text \<open>
  \<^verbatim>\<open>getCacheKey\<close> is private to the module. Its eight call sites (\<^verbatim>\<open>_useQuery\<close>,
  \<^verbatim>\<open>useLiveQuery\<close>, \<^verbatim>\<open>ssr.prefetchInfiniteQuery\<close>, \<^verbatim>\<open>_useInfiniteQuery\<close> and the four
  query utilities) pass one of the three constants or no category at all.
\<close>

definition call_site_extras :: "string option list" where
  "call_site_extras =
     [None, Some CACHE_KEY_QUERY, Some CACHE_KEY_LIVE_QUERY, Some CACHE_KEY_INFINITE_QUERY]"

section \<open>The external cache store\<close>

text \<open>
  Modelled from the spec: the external cache store (react-query's \<^verbatim>\<open>QueryClient\<close>), which
  is not part of the source. The spec describes it as the exclusive owner of all cached
  payloads, keyed by cache key, with the operations \<^verbatim>\<open>setData(key, value)\<close>,
  \<^verbatim>\<open>prefetchQuery(key, fetchFn)\<close> and \<^verbatim>\<open>query(key, fetchFn, options)\<close>. It is a
  partial map from keys to payloads; two keys name the same entry when they are
  structurally equal.
\<close>

type_synonym QueryClient = "cacheKey \<rightharpoonup> jsval"

text \<open>Modelled from the spec: \<^verbatim>\<open>setData(key, value)\<close> writes one entry.\<close>

definition qc_setQueryData :: "QueryClient \<Rightarrow> cacheKey \<Rightarrow> jsval \<Rightarrow> QueryClient" where
  "qc_setQueryData queryClient key v = queryClient(key \<mapsto> v)"

text \<open>
  Modelled from the spec: \<^verbatim>\<open>prefetchQuery(key, fetchFn)\<close> runs the fetch function and
  stores its result under the key. Only the cache afterwards is described; what the
  returned future does when the fetch function fails is not.
\<close>

definition qc_prefetchQuery ::
  "QueryClient \<Rightarrow> cacheKey \<Rightarrow> (unit \<Rightarrow> 'e + jsval) \<Rightarrow> QueryClient" where
  "qc_prefetchQuery queryClient key fetchFn =
     (case fetchFn () of Inr v \<Rightarrow> queryClient(key \<mapsto> v) | Inl e \<Rightarrow> queryClient)"

text \<open>
  Modelled from the spec: \<^verbatim>\<open>query(key, fetchFn, options)\<close>. Section 4.2: on the first call
  for a key, or when the entry is stale, the round trip is made; a call with the same key
  and fresh data returns the cached data with no round trip. Whether an entry is stale
  is the store's judgement, from its own configuration (\<open>stale\<close>; react-query's default
  stale time is zero, which makes every entry stale at once). The result is the outcome
  and whether the fetch function was invoked.
\<close>

definition qc_useQuery ::
  "(cacheKey \<Rightarrow> bool) \<Rightarrow> QueryClient \<Rightarrow> cacheKey \<Rightarrow> (unit \<Rightarrow> 'e + jsval)
     \<Rightarrow> ('e + jsval) \<times> bool" where
  "qc_useQuery stale queryClient key fetchFn =
     (case queryClient key of
        None \<Rightarrow> (fetchFn (), True)
      | Some v \<Rightarrow> (if stale key then (fetchFn (), True) else (Inr v, False)))"

section \<open>Query binder, query utilities and the server-side facade\<close>

text \<open>\<^verbatim>\<open>_useQuery\<close>: the key of category \<^verbatim>\<open>TRPC_QUERY\<close> and the client's read as the fetch
  function. \<open>client\<close> is \<^verbatim>\<open>client.query\<close>, which fails with an error or returns the output.\<close>

definition useQuery ::
  "(cacheKey \<Rightarrow> bool) \<Rightarrow> (pathAndArgs \<Rightarrow> 'e + jsval) \<Rightarrow> QueryClient \<Rightarrow> pathAndArgs
     \<Rightarrow> ('e + jsval) \<times> bool" where
  "useQuery stale client queryClient pa =
     (let cacheKey = getCacheKey pa (Some CACHE_KEY_QUERY)
      in qc_useQuery stale queryClient cacheKey (\<lambda>_. client pa))"

text \<open>\<^verbatim>\<open>useQueryUtils().setQueryData\<close>: the key without category, extended once by each of
  the two categories.\<close>

definition setQueryData :: "pathAndArgs \<Rightarrow> jsval \<Rightarrow> QueryClient \<Rightarrow> QueryClient" where
  "setQueryData pa output queryClient =
     (let cacheKey = getCacheKey pa None;
          queryClient1 = qc_setQueryData queryClient (cacheKey @ [JStr CACHE_KEY_QUERY]) output
      in qc_setQueryData queryClient1 (cacheKey @ [JStr CACHE_KEY_INFINITE_QUERY]) output)"

text \<open>
  The fetch function that \<^verbatim>\<open>ssr(...).prefetchQuery\<close> and \<^verbatim>\<open>prefetchInfiniteQuery\<close> hand
  to the cache: it awaits the direct in-process call \<^verbatim>\<open>caller.query(...pathAndArgs)\<close>,
  here \<open>caller\<close>, and returns its data; a failure of the call is rethrown by the
  \<^verbatim>\<open>await\<close>.
\<close>

definition ssr_fetchFn :: "(pathAndArgs \<Rightarrow> 'e + jsval) \<Rightarrow> pathAndArgs \<Rightarrow> unit \<Rightarrow> 'e + jsval" where
  "ssr_fetchFn caller pa =
     (\<lambda>_. case caller pa of Inl err \<Rightarrow> Inl err | Inr data \<Rightarrow> Inr data)"

text \<open>\<^verbatim>\<open>ssr(...).prefetchQuery\<close>, as to the cache it leaves behind.\<close>

definition ssr_prefetchQuery ::
  "(pathAndArgs \<Rightarrow> 'e + jsval) \<Rightarrow> QueryClient \<Rightarrow> pathAndArgs \<Rightarrow> QueryClient" where
  "ssr_prefetchQuery caller queryClient pa =
     (let cacheKey = [JStr (path_of pa), nullish (input_of pa) JNull, JStr CACHE_KEY_QUERY]
      in qc_prefetchQuery queryClient cacheKey (ssr_fetchFn caller pa))"

text \<open>
  The futures that \<^verbatim>\<open>ssr(...).prefetchQuery\<close> and \<^verbatim>\<open>prefetchInfiniteQuery\<close> return. Both
  are async functions that return the promise of the cache method of the same name, so
  their future settles as that promise does: it rejects with an error (\<open>Inl\<close>) or
  resolves. The cache instance is an argument of \<^verbatim>\<open>ssr\<close>; how the promises of its two
  prefetch methods settle for a key and a fetch function belongs to the instance.
\<close>

record 'e prefetch_methods =
  prefetchQuery :: "cacheKey \<Rightarrow> (unit \<Rightarrow> 'e + jsval) \<Rightarrow> 'e + unit"
  prefetchInfiniteQuery :: "cacheKey \<Rightarrow> (unit \<Rightarrow> 'e + jsval) \<Rightarrow> 'e + unit"

definition ssr_prefetchQuery_future ::
  "'e prefetch_methods \<Rightarrow> (pathAndArgs \<Rightarrow> 'e + jsval) \<Rightarrow> pathAndArgs \<Rightarrow> 'e + unit" where
  "ssr_prefetchQuery_future queryClient caller pa =
     (let cacheKey = [JStr (path_of pa), nullish (input_of pa) JNull, JStr CACHE_KEY_QUERY]
      in prefetchQuery queryClient cacheKey (ssr_fetchFn caller pa))"

definition ssr_prefetchInfiniteQuery_future ::
  "'e prefetch_methods \<Rightarrow> (pathAndArgs \<Rightarrow> 'e + jsval) \<Rightarrow> pathAndArgs \<Rightarrow> 'e + unit" where
  "ssr_prefetchInfiniteQuery_future queryClient caller pa =
     (let cacheKey = getCacheKey pa (Some CACHE_KEY_INFINITE_QUERY)
      in prefetchInfiniteQuery queryClient cacheKey (ssr_fetchFn caller pa))"

text \<open>
  Two cache instances. The futures of the first never reject, whatever the fetch function
  does (react-query documents its \<^verbatim>\<open>prefetchQuery\<close> so: it does not throw or return any
  data). The futures of the second reject with the failure of the fetch function.
\<close>

definition quiet_client :: "string prefetch_methods" where
  "quiet_client =
     \<lparr>prefetchQuery = (\<lambda>key fetchFn. Inr ()),
      prefetchInfiniteQuery = (\<lambda>key fetchFn. Inr ())\<rparr>"

definition strict_client :: "string prefetch_methods" where
  "strict_client =
     \<lparr>prefetchQuery =
        (\<lambda>key fetchFn. case fetchFn () of Inl err \<Rightarrow> Inl err | Inr data \<Rightarrow> Inr ()),
      prefetchInfiniteQuery =
        (\<lambda>key fetchFn. case fetchFn () of Inl err \<Rightarrow> Inl err | Inr data \<Rightarrow> Inr ())\<rparr>"

definition failing_caller :: "pathAndArgs \<Rightarrow> string + jsval" where
  "failing_caller pa = Inl ''NOT_FOUND''"

text \<open>
  The transformer of the client: \<^verbatim>\<open>client.transformer.serialize\<close> and
  \<^verbatim>\<open>deserialize\<close>, both from any value to any value.
\<close>

record transformer =
  serialize :: "jsval \<Rightarrow> jsval"
  deserialize :: "jsval \<Rightarrow> jsval"

text \<open>\<^verbatim>\<open>ssr(...).dehydrate\<close>; \<open>dehydrate\<close> is the cache library's function of that name.\<close>

definition ssr_dehydrate ::
  "transformer \<Rightarrow> ('qc \<Rightarrow> 'o \<Rightarrow> jsval) \<Rightarrow> 'qc \<Rightarrow> 'o \<Rightarrow> jsval" where
  "ssr_dehydrate t dehydrate queryClient opts = serialize t (dehydrate queryClient opts)"

text \<open>
  \<^verbatim>\<open>useDehydratedState\<close>: the guard \<^verbatim>\<open>if (!dehydratedState)\<close> hands every falsy argument
  back as it is, the undefined of an omitted argument among them; any other argument is
  deserialized.
\<close>

definition useDehydratedState :: "transformer \<Rightarrow> jsval \<Rightarrow> jsval" where
  "useDehydratedState t dehydratedState =
     (if falsy dehydratedState then dehydratedState
      else deserialize t dehydratedState)"

text \<open>
  A concrete setting for the round trip. The server cache is the result of prefetching
  \<^verbatim>\<open>user.get\<close> with input \<^verbatim>\<open>{id: 7}\<close> from a caller that answers \<^verbatim>\<open>'ann'\<close>. Dehydration
  exports the entry of that query as the array of its key and its data, and hydration
  reads such an array back. One transformer wraps a value into a one-element array; the
  other exchanges null and one given value and leaves every other value alone. The
  client's cache regards every entry as stale, or none; the client's own call would
  answer \<^verbatim>\<open>'bob'\<close>.
\<close>

definition user_get :: pathAndArgs where
  "user_get = (''user.get'', [JObj (fmap_of_list [(''id'', JNum 7)])])"

definition example_caller :: "pathAndArgs \<Rightarrow> unit + jsval" where
  "example_caller pa = Inr (JStr ''ann'')"

definition example_client :: "pathAndArgs \<Rightarrow> unit + jsval" where
  "example_client pa = Inr (JStr ''bob'')"

definition example_server :: QueryClient where
  "example_server = ssr_prefetchQuery example_caller Map.empty user_get"

definition example_dehydrate :: "QueryClient \<Rightarrow> unit \<Rightarrow> jsval" where
  "example_dehydrate queryClient opts =
     (case queryClient (useQuery_cacheKey user_get) of
        None \<Rightarrow> JArr []
      | Some v \<Rightarrow> JArr [JArr (useQuery_cacheKey user_get), v])"

definition example_hydrate :: "jsval \<Rightarrow> QueryClient" where
  "example_hydrate state =
     (case state of
        JArr [JArr key, v] \<Rightarrow> Map.empty(key \<mapsto> v)
      | _ \<Rightarrow> Map.empty)"

definition wrap_transformer :: transformer where
  "wrap_transformer =
     \<lparr>serialize = (\<lambda>x. JArr [x]),
      deserialize = (\<lambda>y. case y of JArr [x] \<Rightarrow> x | _ \<Rightarrow> y)\<rparr>"

definition swap_null :: "jsval \<Rightarrow> jsval \<Rightarrow> jsval" where
  "swap_null st x = (if x = JNull then st else if x = st then JNull else x)"

definition swap_null_transformer :: transformer where
  "swap_null_transformer =
     \<lparr>serialize = swap_null (example_dehydrate example_server ()),
      deserialize = swap_null (example_dehydrate example_server ())\<rparr>"

definition always_stale :: "cacheKey \<Rightarrow> bool" where
  "always_stale key = True"

definition never_stale :: "cacheKey \<Rightarrow> bool" where
  "never_stale key = False"

section \<open>The one-shot subscription runner\<close>

text \<open>
  \<^verbatim>\<open>useSubscription\<close> starts, in an effect, one cancellable long-poll and attaches two
  reactions to its promise: \<^verbatim>\<open>promise.then(A).catch(B)\<close>. The model follows one run of
  the effect: the local \<^verbatim>\<open>stopped\<close>, the promise (pending or settled, and whether
  \<^verbatim>\<open>cancel\<close> was called on it), and the log of the callbacks invoked so far. A supplied
  callback is a function that tells whether its invocation throws.
\<close>

datatype ('d, 'e) callback_call = OnBatch 'd | OnError 'e

record ('d, 'e) subscription_opts =
  enabled :: "bool option"
  onError :: "('e \<Rightarrow> 'e option) option"
  onBatch :: "('d \<Rightarrow> 'e option) option"

datatype promise_state = Pending | Settled

record ('d, 'e) subscription =
  subscribed :: "string \<times> jsval"
  stopped :: bool
  promise :: promise_state
  cancelled :: bool
  calls :: "('d, 'e) callback_call list"

text \<open>The body of the effect: nothing is started when \<^verbatim>\<open>enabled\<close> (default true) is false.\<close>

definition useSubscription_effect ::
  "('d, 'e) subscription_opts \<Rightarrow> string \<times> jsval \<Rightarrow> ('d, 'e) subscription option" where
  "useSubscription_effect opts pathAndArgs =
     (if \<not> (case enabled opts of None \<Rightarrow> True | Some b \<Rightarrow> b) then None
      else Some \<lparr>subscribed = pathAndArgs, stopped = False, promise = Pending,
                 cancelled = False, calls = []\<rparr>)"

text \<open>The reaction given to \<^verbatim>\<open>then\<close>; the second component is the error it throws, if
  \<^verbatim>\<open>onBatch\<close> throws one.\<close>

definition on_fulfilled ::
  "('d, 'e) subscription_opts \<Rightarrow> ('d, 'e) subscription \<Rightarrow> 'd
     \<Rightarrow> ('d, 'e) subscription \<times> 'e option" where
  "on_fulfilled opts s d =
     (if stopped s then (s, None)
      else case onBatch opts of
             None \<Rightarrow> (s, None)
           | Some f \<Rightarrow> (s\<lparr>calls := calls s @ [OnBatch d]\<rparr>, f d))"

text \<open>The reaction given to \<^verbatim>\<open>catch\<close>.\<close>

definition on_rejected ::
  "('d, 'e) subscription_opts \<Rightarrow> ('d, 'e) subscription \<Rightarrow> 'e \<Rightarrow> ('d, 'e) subscription" where
  "on_rejected opts s err =
     (if stopped s then s
      else case onError opts of
             None \<Rightarrow> s
           | Some g \<Rightarrow> s\<lparr>calls := calls s @ [OnError err]\<rparr>)"

text \<open>The cleanup returned by the effect.\<close>

definition cleanup :: "('d, 'e) subscription \<Rightarrow> ('d, 'e) subscription" where
  "cleanup s = s\<lparr>stopped := True, cancelled := True\<rparr>"

text \<open>
  What can happen to a started subscription: the long-poll resolves, it rejects, or the
  effect is cleaned up (unmount, key change, \<^verbatim>\<open>enabled\<close> flipping). A promise settles
  once; a later settlement is ignored. On fulfilment the \<^verbatim>\<open>then\<close> reaction runs, and the
  \<^verbatim>\<open>catch\<close> reaction runs after it when it threw; on rejection only the \<^verbatim>\<open>catch\<close>
  reaction runs.
\<close>

datatype ('d, 'e) subscription_event = Fulfil 'd | Reject 'e | Cleanup

fun subscription_step ::
  "('d, 'e) subscription_opts \<Rightarrow> ('d, 'e) subscription \<Rightarrow> ('d, 'e) subscription_event
     \<Rightarrow> ('d, 'e) subscription" where
  "subscription_step opts s Cleanup = cleanup s"
| "subscription_step opts s (Fulfil d) =
     (if promise s \<noteq> Pending then s
      else case on_fulfilled opts (s\<lparr>promise := Settled\<rparr>) d of
             (s1, None) \<Rightarrow> s1
           | (s1, Some err) \<Rightarrow> on_rejected opts s1 err)"
| "subscription_step opts s (Reject err) =
     (if promise s \<noteq> Pending then s
      else on_rejected opts (s\<lparr>promise := Settled\<rparr>) err)"

definition subscription_run ::
  "('d, 'e) subscription_opts \<Rightarrow> ('d, 'e) subscription \<Rightarrow> ('d, 'e) subscription_event list
     \<Rightarrow> ('d, 'e) subscription" where
  "subscription_run opts s evs = foldl (subscription_step opts) s evs"

text \<open>Options with both callbacks supplied, neither of which throws.\<close>

definition example_opts :: "(jsval list, string) subscription_opts" where
  "example_opts = \<lparr>enabled = None, onError = Some (\<lambda>_. None), onBatch = Some (\<lambda>_. None)\<rparr>"

section \<open>The live-query cursor loop\<close>

text \<open>
  An item of a live-query batch, \<^verbatim>\<open>OutputWithCursor<TData, TCursor>\<close>: its cursor is a
  \<^verbatim>\<open>TCursor\<close> or null. Cursors \<open>'c\<close> are primitive values (numbers, strings), for which
  the comparison React makes between the dependency arrays of two renders is equality.
\<close>

datatype 'c nullable = Null | Val 'c

record ('d, 'c) OutputWithCursor =
  cursor :: "'c nullable"
  data :: 'd

text \<open>The input of one long-poll: \<^verbatim>\<open>{...userInput, cursor: currentCursor.current}\<close> sent to
  \<^verbatim>\<open>client.subscriptionOnce(path, ...)\<close>. A cursor \<open>None\<close> is undefined.\<close>

record ('i, 'c) live_request =
  req_path :: string
  req_input :: 'i
  req_cursor :: "'c nullable option"

text \<open>
  The state of one mounted \<^verbatim>\<open>useLiveQuery\<close>: the ref \<^verbatim>\<open>currentCursor\<close> (initially null),
  \<^verbatim>\<open>hook.data\<close> (undefined until a batch has loaded), whether a render has been committed
  and the \<^verbatim>\<open>[lastCursor]\<close> its effect recorded, the number of long-polls in flight, the
  log of the long-polls issued, the number of calls of \<^verbatim>\<open>hook.refetch()\<close>, and the
  \<^verbatim>\<open>data\<close> the hook returned last.
\<close>

record ('i, 'd, 'c) live_query =
  currentCursor :: "'c nullable option"
  hook_data :: "('d, 'c) OutputWithCursor list option"
  mounted :: bool
  effect_deps :: "'c nullable option"
  in_flight :: nat
  requests :: "('i, 'c) live_request list"
  refetch_calls :: nat
  returned_data :: "'d option"

definition live_init :: "('i, 'd, 'c) live_query" where
  "live_init = \<lparr>currentCursor = Some Null, hook_data = None, mounted = False,
                 effect_deps = None, in_flight = 0, requests = [], refetch_calls = 0,
                 returned_data = None\<rparr>"

text \<open>The fetch function handed to the query mechanism: it reads the ref when it is called.\<close>

definition queryFn :: "string \<times> 'i \<Rightarrow> ('i, 'd, 'c) live_query \<Rightarrow> ('i, 'd, 'c) live_query" where
  "queryFn pathAndArgs s =
     s\<lparr>requests := requests s @
          [\<lparr>req_path = fst pathAndArgs, req_input = snd pathAndArgs,
            req_cursor = currentCursor s\<rparr>],
       in_flight := Suc (in_flight s)\<rparr>"

text \<open>
  Modelled from the spec: the query mechanism of the external cache store. On the first
  call for a key it triggers the round trip (section 4.2).
\<close>

definition qc_fetch_on_mount ::
  "string \<times> 'i \<Rightarrow> ('i, 'd, 'c) live_query \<Rightarrow> ('i, 'd, 'c) live_query" where
  "qc_fetch_on_mount pathAndArgs s = (if mounted s then s else queryFn pathAndArgs s)"

text \<open>
  Modelled from the spec: \<^verbatim>\<open>hook.refetch()\<close> of the query mechanism. The external cache
  deduplicates concurrent fetches for an identical key (section 5): while a fetch for
  the key is in flight, a refetch joins it and calls no fetch function.
\<close>

definition hook_refetch ::
  "string \<times> 'i \<Rightarrow> ('i, 'd, 'c) live_query \<Rightarrow> ('i, 'd, 'c) live_query" where
  "hook_refetch pathAndArgs s =
     (let s1 = s\<lparr>refetch_calls := Suc (refetch_calls s)\<rparr>
      in if 0 < in_flight s1 then s1 else queryFn pathAndArgs s1)"

text \<open>The memoised \<^verbatim>\<open>lastItem\<close>: \<^verbatim>\<open>raw[raw.length - 1]\<close> is undefined for an empty batch.\<close>

definition lastItem ::
  "('d, 'c) OutputWithCursor list option \<Rightarrow> ('d, 'c) OutputWithCursor option" where
  "lastItem raw =
     (case raw of
        None \<Rightarrow> None
      | Some xs \<Rightarrow> (if xs = [] then None else Some (last xs)))"

text \<open>\<^verbatim>\<open>lastItem?.cursor\<close> of a batch.\<close>

definition lastCursor_of ::
  "('d, 'c) OutputWithCursor list option \<Rightarrow> 'c nullable option" where
  "lastCursor_of raw = map_option cursor (lastItem raw)"

text \<open>
  One render of \<^verbatim>\<open>useLiveQuery\<close> with its commit. The effect with dependencies
  \<^verbatim>\<open>[lastCursor]\<close> runs after the first render and after every render in which
  \<^verbatim>\<open>lastCursor\<close> differs from the one of the previous render; it stores \<^verbatim>\<open>lastCursor\<close>
  in the ref and calls \<^verbatim>\<open>hook.refetch()\<close>.
\<close>

definition useLiveQuery ::
  "string \<times> 'i \<Rightarrow> ('i, 'd, 'c) live_query \<Rightarrow> ('i, 'd, 'c) live_query" where
  "useLiveQuery pathAndArgs s =
     (let s1 = qc_fetch_on_mount pathAndArgs s;
          lastItem = lastItem (hook_data s1);
          data = map_option data lastItem;
          lastCursor = map_option cursor lastItem;
          s2 = (if mounted s1 \<and> effect_deps s1 = lastCursor then s1
                else hook_refetch pathAndArgs (s1\<lparr>currentCursor := lastCursor\<rparr>))
      in s2\<lparr>mounted := True, effect_deps := lastCursor, returned_data := data\<rparr>)"

text \<open>
  What happens to a mounted live query: the long-poll in flight resolves with a batch,
  which the query mechanism stores as \<^verbatim>\<open>hook.data\<close> before the component renders again;
  or the component renders again for another reason. A batch with no long-poll in flight
  cannot arrive. A failing long-poll, the retries of the cache and a refetch forced by
  the caller are not part of the loop and are left out.
\<close>

datatype ('d, 'c) live_event = Resolve "('d, 'c) OutputWithCursor list" | Rerender

fun live_step ::
  "string \<times> 'i \<Rightarrow> ('i, 'd, 'c) live_query \<Rightarrow> ('d, 'c) live_event \<Rightarrow> ('i, 'd, 'c) live_query" where
  "live_step pathAndArgs s Rerender = useLiveQuery pathAndArgs s"
| "live_step pathAndArgs s (Resolve batch) =
     (if in_flight s = 0 then s
      else useLiveQuery pathAndArgs (s\<lparr>hook_data := Some batch, in_flight := in_flight s - 1\<rparr>))"

definition live_run ::
  "string \<times> 'i \<Rightarrow> ('d, 'c) live_event list \<Rightarrow> ('i, 'd, 'c) live_query" where
  "live_run pathAndArgs evs = foldl (live_step pathAndArgs) (useLiveQuery pathAndArgs live_init) evs"

text \<open>The request the loop sends for a stored cursor.\<close>

definition live_request_of :: "string \<times> 'i \<Rightarrow> 'c nullable option \<Rightarrow> ('i, 'c) live_request" where
  "live_request_of pathAndArgs c =
     \<lparr>req_path = fst pathAndArgs, req_input = snd pathAndArgs, req_cursor = c\<rparr>"

text \<open>The example of the spec: \<^verbatim>\<open>liveQuery(['msgs.list', {room: 'a'}])\<close>.\<close>

definition msgs_list :: "string \<times> jsval" where
  "msgs_list = (''msgs.list'', JObj (fmap_of_list [(''room'', JStr ''a'')]))"

definition item :: "int \<Rightarrow> string \<Rightarrow> (string, int) OutputWithCursor" where
  "item c d = \<lparr>cursor = Val c, data = d\<rparr>"

text \<open>
  What holds of a live query after every commit: the effect has recorded the cursor it
  stored, which is the last cursor of \<^verbatim>\<open>hook.data\<close>; at most one long-poll is in flight;
  the returned data is the payload of the last item.
\<close>

definition live_inv :: "('i, 'd, 'c) live_query \<Rightarrow> bool" where
  "live_inv s \<longleftrightarrow>
     mounted s \<and> effect_deps s = currentCursor s
     \<and> currentCursor s = lastCursor_of (hook_data s)
     \<and> in_flight s \<le> 1
     \<and> returned_data s = map_option data (lastItem (hook_data s))"

section \<open>Properties of the cache keys\<close>

lemma getCacheKey_length:
  "length (getCacheKey pa extras) = (if truthy_extras extras then 3 else 2)"
  by (simp add: getCacheKey_def Let_def)

lemma call_site_extras_nonempty: "\<forall>e \<in> set call_site_extras. e \<noteq> Some []"
  by (simp add: call_site_extras_def CACHE_KEY_QUERY_def CACHE_KEY_LIVE_QUERY_def
      CACHE_KEY_INFINITE_QUERY_def)

lemma getCacheKey_path_input:
  "path_of pa1 = path_of pa2 \<Longrightarrow> input_of pa1 = input_of pa2 \<Longrightarrow>
     getCacheKey pa1 extras = getCacheKey pa2 extras"
  by (simp add: getCacheKey_def Let_def)

lemma getCacheKey_category_differs:
  assumes "e1 \<noteq> Some []" and "e2 \<noteq> Some []" and "e1 \<noteq> e2"
  shows "getCacheKey pa1 e1 \<noteq> getCacheKey pa2 e2"
proof
  assume eq: "getCacheKey pa1 e1 = getCacheKey pa2 e2"
  then have len: "length (getCacheKey pa1 e1) = length (getCacheKey pa2 e2)"
    by simp
  show False
  proof (cases e1)
    case None
    with assms obtain s where "e2 = Some s" "s \<noteq> []"
      by (cases e2) auto
    with None len show False
      by (simp add: getCacheKey_length truthy_extras_def)
  next
    case (Some s1)
    with assms(1) have s1: "s1 \<noteq> []" by simp
    show False
    proof (cases e2)
      case None
      with Some s1 len show False
        by (simp add: getCacheKey_length truthy_extras_def)
    next
      case (Some s2)
      with assms(2) have s2: "s2 \<noteq> []" by simp
      from eq \<open>e1 = Some s1\<close> Some s1 s2 have "s1 = s2"
        by (simp add: getCacheKey_def truthy_extras_def Let_def)
      with assms(3) \<open>e1 = Some s1\<close> Some show False by simp
    qed
  qed
qed

text \<open>
  C5: for all pairs of calls to \<^verbatim>\<open>getCacheKey\<close>, with categories as the call sites pass
  them (none, or a non-empty string): when the paths are equal, the inputs are deep-equal
  and the categories are equal, the keys are structurally equal, whatever else the two
  argument tuples hold; and when the categories differ, the keys differ, whatever the
  paths and inputs, identical ones included.
\<close>

theorem getCacheKey_category:
  assumes "e1 \<noteq> Some []" and "e2 \<noteq> Some []"
  shows "(path_of pa1 = path_of pa2 \<and> input_of pa1 = input_of pa2 \<and> e1 = e2
            \<longrightarrow> getCacheKey pa1 e1 = getCacheKey pa2 e2)
         \<and> (e1 \<noteq> e2 \<longrightarrow> getCacheKey pa1 e1 \<noteq> getCacheKey pa2 e2)
         \<and> (e1 \<noteq> e2 \<longrightarrow> getCacheKey pa1 e1 \<noteq> getCacheKey pa1 e2)"
proof (intro conjI impI)
  assume "path_of pa1 = path_of pa2 \<and> input_of pa1 = input_of pa2 \<and> e1 = e2"
  then show "getCacheKey pa1 e1 = getCacheKey pa2 e2"
    using getCacheKey_path_input [of pa1 pa2 e1] by simp
next
  assume "e1 \<noteq> e2"
  with assms show "getCacheKey pa1 e1 \<noteq> getCacheKey pa2 e2"
    by (rule getCacheKey_category_differs)
next
  assume "e1 \<noteq> e2"
  with assms show "getCacheKey pa1 e1 \<noteq> getCacheKey pa1 e2"
    by (rule getCacheKey_category_differs)
qed

theorem getCacheKey_category_witness:
  "JObj (fmap_of_list [(''a'', JNum 1), (''b'', JNum 2)])
     = JObj (fmap_of_list [(''b'', JNum 2), (''a'', JNum 1)])
   \<and> getCacheKey (''user.get'', [JObj (fmap_of_list [(''a'', JNum 1), (''b'', JNum 2)])])
        (Some CACHE_KEY_QUERY)
     = getCacheKey (''user.get'', [JObj (fmap_of_list [(''b'', JNum 2), (''a'', JNum 1)]), JNull])
        (Some CACHE_KEY_QUERY)
   \<and> getCacheKey (''user.get'', [JNum 7]) (Some CACHE_KEY_QUERY)
     \<noteq> getCacheKey (''user.get'', [JNum 7]) (Some CACHE_KEY_LIVE_QUERY)
   \<and> getCacheKey (''user.get'', [JNum 7]) (Some CACHE_KEY_QUERY)
     \<noteq> getCacheKey (''user.get'', [JNum 7]) (Some CACHE_KEY_INFINITE_QUERY)
   \<and> getCacheKey (''user.get'', [JNum 7]) (Some CACHE_KEY_LIVE_QUERY)
     \<noteq> getCacheKey (''user.get'', [JNum 7]) (Some CACHE_KEY_INFINITE_QUERY)
   \<and> getCacheKey (''user.get'', [JNum 7]) (Some CACHE_KEY_QUERY)
     \<noteq> getCacheKey (''user.get'', [JNum 7]) None"
proof -
  have m: "fmap_of_list [(''a'', JNum 1), (''b'', JNum 2)]
      = fmap_of_list [(''b'', JNum 2), (''a'', JNum 1)]"
    by (rule fmap_ext) auto
  then have o: "JObj (fmap_of_list [(''a'', JNum 1), (''b'', JNum 2)])
      = JObj (fmap_of_list [(''b'', JNum 2), (''a'', JNum 1)])"
    by simp
  have n: "None \<noteq> Some ([] :: string)"
    "Some CACHE_KEY_QUERY \<noteq> Some []"
    "Some CACHE_KEY_LIVE_QUERY \<noteq> Some []"
    "Some CACHE_KEY_INFINITE_QUERY \<noteq> Some []"
    using call_site_extras_nonempty by (simp_all add: call_site_extras_def)
  have d: "Some CACHE_KEY_QUERY \<noteq> Some CACHE_KEY_LIVE_QUERY"
    "Some CACHE_KEY_QUERY \<noteq> Some CACHE_KEY_INFINITE_QUERY"
    "Some CACHE_KEY_LIVE_QUERY \<noteq> Some CACHE_KEY_INFINITE_QUERY"
    "Some CACHE_KEY_QUERY \<noteq> (None :: string option)"
    by (simp_all add: CACHE_KEY_QUERY_def CACHE_KEY_LIVE_QUERY_def CACHE_KEY_INFINITE_QUERY_def)
  have p: "path_of (''user.get'', [JObj (fmap_of_list [(''a'', JNum 1), (''b'', JNum 2)])])
      = path_of (''user.get'', [JObj (fmap_of_list [(''b'', JNum 2), (''a'', JNum 1)]), JNull])"
    by (simp add: path_of_def)
  have i: "input_of (''user.get'', [JObj (fmap_of_list [(''a'', JNum 1), (''b'', JNum 2)])])
      = input_of (''user.get'', [JObj (fmap_of_list [(''b'', JNum 2), (''a'', JNum 1)]), JNull])"
    using o by (simp add: input_of_def)
  note eq = getCacheKey_category [OF n(2) n(2),
      where ?pa1.0 = "(''user.get'', [JObj (fmap_of_list [(''a'', JNum 1), (''b'', JNum 2)])])"
        and ?pa2.0 = "(''user.get'', [JObj (fmap_of_list [(''b'', JNum 2), (''a'', JNum 1)]), JNull])"]
  note ql = getCacheKey_category [OF n(2) n(3),
      where ?pa1.0 = "(''user.get'', [JNum 7])" and ?pa2.0 = "(''user.get'', [JNum 7])"]
  note qi = getCacheKey_category [OF n(2) n(4),
      where ?pa1.0 = "(''user.get'', [JNum 7])" and ?pa2.0 = "(''user.get'', [JNum 7])"]
  note li = getCacheKey_category [OF n(3) n(4),
      where ?pa1.0 = "(''user.get'', [JNum 7])" and ?pa2.0 = "(''user.get'', [JNum 7])"]
  note qn = getCacheKey_category [OF n(2) n(1),
      where ?pa1.0 = "(''user.get'', [JNum 7])" and ?pa2.0 = "(''user.get'', [JNum 7])"]
  from o p i d eq ql qi li qn show ?thesis
    by blast
qed

text \<open>
  C6: for every path and category, the key derived with the input omitted equals the key
  derived with the input explicitly undefined, and its input position (index 1) holds null.
\<close>

theorem getCacheKey_input_omitted:
  "getCacheKey (path, []) extras = getCacheKey (path, [JUndefined]) extras
   \<and> getCacheKey (path, []) extras ! 1 = JNull
   \<and> getCacheKey (path, [JUndefined]) extras ! 1 = JNull"
  by (simp add: getCacheKey_def input_of_def path_of_def Let_def)

text \<open>
  C7: for every path and input, the key under which \<^verbatim>\<open>ssr.prefetchQuery\<close> stores equals
  the key \<^verbatim>\<open>useQuery\<close> derives, and the key of \<^verbatim>\<open>ssr.prefetchInfiniteQuery\<close> equals the
  key \<^verbatim>\<open>useInfiniteQuery\<close> derives: the facade's prefetch is the cache's prefetch under
  the key of the client hook.
\<close>

theorem ssr_keys_agree:
  "ssr_prefetchQuery_cacheKey pa = useQuery_cacheKey pa
   \<and> ssr_prefetchInfiniteQuery_cacheKey pa = useInfiniteQuery_cacheKey pa
   \<and> ssr_prefetchQuery caller queryClient pa
       = qc_prefetchQuery queryClient (useQuery_cacheKey pa) (ssr_fetchFn caller pa)"
  by (simp add: ssr_prefetchQuery_cacheKey_def useQuery_cacheKey_def
      ssr_prefetchInfiniteQuery_cacheKey_def useInfiniteQuery_cacheKey_def
      ssr_prefetchQuery_def getCacheKey_def truthy_extras_def CACHE_KEY_QUERY_def Let_def)

section \<open>Properties of the query utilities and of the facade\<close>

text \<open>
  C10: \<^verbatim>\<open>setQueryData\<close> writes the output under the plain-query key and under the
  infinite-query key of the path and input, leaves every other entry of the cache as it
  was, and in particular does not touch the live-query entry of the same path and input.
\<close>

theorem setQueryData_frame:
  "setQueryData pa output queryClient
       [JStr (path_of pa), nullish (input_of pa) JNull, JStr ''TRPC_QUERY''] = Some output
   \<and> setQueryData pa output queryClient
       [JStr (path_of pa), nullish (input_of pa) JNull, JStr ''TRPC_INFINITE_QUERY''] = Some output
   \<and> (\<forall>key. key \<noteq> [JStr (path_of pa), nullish (input_of pa) JNull, JStr ''TRPC_QUERY'']
          \<and> key \<noteq> [JStr (path_of pa), nullish (input_of pa) JNull, JStr ''TRPC_INFINITE_QUERY'']
          \<longrightarrow> setQueryData pa output queryClient key = queryClient key)
   \<and> setQueryData pa output queryClient
       [JStr (path_of pa), nullish (input_of pa) JNull, JStr ''TRPC_LIVE_QUERY'']
     = queryClient [JStr (path_of pa), nullish (input_of pa) JNull, JStr ''TRPC_LIVE_QUERY'']"
  by (simp add: setQueryData_def qc_setQueryData_def getCacheKey_def truthy_extras_def Let_def
      CACHE_KEY_QUERY_def CACHE_KEY_INFINITE_QUERY_def)

theorem setQueryData_frame_witness:
  "setQueryData (''user.get'', [JNum 7]) (JStr ''ann'') Map.empty
       [JStr ''user.get'', JNum 7, JStr ''TRPC_QUERY''] = Some (JStr ''ann'')
   \<and> setQueryData (''user.get'', [JNum 7]) (JStr ''ann'') Map.empty
       [JStr ''user.get'', JNum 7, JStr ''TRPC_INFINITE_QUERY''] = Some (JStr ''ann'')
   \<and> setQueryData (''user.get'', [JNum 7]) (JStr ''ann'') Map.empty
       [JStr ''user.get'', JNum 8, JStr ''TRPC_QUERY''] = None
   \<and> setQueryData (''user.get'', [JNum 7]) (JStr ''ann'') Map.empty
       [JStr ''user.get'', JNum 7, JStr ''TRPC_LIVE_QUERY''] = None"
  using setQueryData_frame [of "(''user.get'', [JNum 7])" "JStr ''ann''" Map.empty]
  by (simp add: path_of_def input_of_def)

lemma example_server_entry:
  "example_server = Map.empty(useQuery_cacheKey user_get \<mapsto> JStr ''ann'')"
  by (simp add: example_server_def ssr_prefetchQuery_def qc_prefetchQuery_def ssr_fetchFn_def
      example_caller_def useQuery_cacheKey_def getCacheKey_def truthy_extras_def
      CACHE_KEY_QUERY_def Let_def)

lemma example_dehydrate_server:
  "example_dehydrate example_server () = JArr [JArr (useQuery_cacheKey user_get), JStr ''ann'']"
  by (simp add: example_dehydrate_def example_server_entry)

lemma example_hydrate_dehydrate:
  "example_hydrate (example_dehydrate example_server ()) = example_server"
  unfolding example_dehydrate_server
  by (simp add: example_hydrate_def example_server_entry)

lemma swap_null_involution: "swap_null st (swap_null st x) = x"
  by (simp add: swap_null_def)

lemma swap_null_roundtrip:
  "deserialize swap_null_transformer \<circ> serialize swap_null_transformer = id"
  by (rule ext) (simp add: swap_null_transformer_def swap_null_involution)

lemma wrap_roundtrip: "deserialize wrap_transformer \<circ> serialize wrap_transformer = id"
  by (rule ext) (simp add: wrap_transformer_def)

text \<open>
  C8 (as stated, refuted), in each of its two halves. A transformer whose \<open>deserialize\<close>
  undoes its \<open>serialize\<close> may serialize the dehydrated state to null; the guard of
  \<^verbatim>\<open>useDehydratedState\<close> then hands null back and the state is lost. And with a
  transformer that round-trips the state, a client cache that regards the rehydrated
  entry as stale calls the client: an RPC call is issued.
\<close>

theorem dehydrate_roundtrip_counterexample:
  "deserialize swap_null_transformer \<circ> serialize swap_null_transformer = id
   \<and> useDehydratedState swap_null_transformer
        (ssr_dehydrate swap_null_transformer example_dehydrate example_server ()) = JNull
   \<and> example_dehydrate example_server () \<noteq> JNull
   \<and> deserialize wrap_transformer \<circ> serialize wrap_transformer = id
   \<and> useDehydratedState wrap_transformer
        (ssr_dehydrate wrap_transformer example_dehydrate example_server ())
     = example_dehydrate example_server ()
   \<and> snd (useQuery always_stale example_client
        (example_hydrate (useDehydratedState wrap_transformer
           (ssr_dehydrate wrap_transformer example_dehydrate example_server ()))) user_get)
     = True"
proof -
  have s: "useDehydratedState swap_null_transformer
        (ssr_dehydrate swap_null_transformer example_dehydrate example_server ()) = JNull"
    by (simp add: useDehydratedState_def ssr_dehydrate_def swap_null_transformer_def
        swap_null_def example_dehydrate_server)
  have n: "example_dehydrate example_server () \<noteq> JNull"
    by (simp add: example_dehydrate_server)
  have w: "useDehydratedState wrap_transformer
        (ssr_dehydrate wrap_transformer example_dehydrate example_server ())
     = example_dehydrate example_server ()"
    by (simp add: useDehydratedState_def ssr_dehydrate_def wrap_transformer_def)
  have q: "snd (useQuery always_stale example_client example_server user_get) = True"
    by (simp add: useQuery_def qc_useQuery_def always_stale_def example_client_def
        example_server_entry useQuery_cacheKey_def Let_def)
  from s n w q swap_null_roundtrip wrap_roundtrip example_hydrate_dehydrate
  show ?thesis by simp
qed

text \<open>
  C8 (amended): when the transformer's \<open>deserialize\<close> undoes its \<open>serialize\<close> and the
  serialized state is not falsy, \<^verbatim>\<open>useDehydratedState(ssr.dehydrate(opts))\<close> is the
  untransformed dehydrated state of the server's cache. Hence, when the direct call of
  \<^verbatim>\<open>prefetchQuery(path, input)\<close> returned \<open>v\<close>, the client cache is rehydrated from that
  state with the entries of the server's cache, and the client cache regards the entry as
  fresh, the client-side query for the same path and input yields \<open>v\<close> without invoking
  the client.
\<close>

theorem dehydrate_roundtrip:
  assumes "\<forall>x. deserialize t (serialize t x) = x"
    and "\<not> falsy (serialize t (dehydrate queryClient opts))"
  shows "useDehydratedState t (ssr_dehydrate t dehydrate queryClient opts)
           = dehydrate queryClient opts
         \<and> (caller pa = Inr v
              \<and> queryClient = ssr_prefetchQuery caller queryClient0 pa
              \<and> hydrate (dehydrate queryClient opts) = queryClient
              \<and> \<not> stale (useQuery_cacheKey pa)
            \<longrightarrow> useQuery stale client
                  (hydrate (useDehydratedState t
                     (ssr_dehydrate t dehydrate queryClient opts))) pa
                = (Inr v, False))"
proof -
  have rt: "useDehydratedState t (ssr_dehydrate t dehydrate queryClient opts)
              = dehydrate queryClient opts"
    using assms by (simp add: useDehydratedState_def ssr_dehydrate_def)
  have hit: "useQuery stale client (ssr_prefetchQuery caller queryClient0 pa) pa
      = (Inr v, False)"
    if "caller pa = Inr v" and "\<not> stale (useQuery_cacheKey pa)"
    using that
    by (simp add: useQuery_def qc_useQuery_def ssr_prefetchQuery_def qc_prefetchQuery_def
        ssr_fetchFn_def useQuery_cacheKey_def getCacheKey_def truthy_extras_def
        CACHE_KEY_QUERY_def Let_def)
  show ?thesis
    using rt hit by auto
qed

theorem dehydrate_roundtrip_witness:
  "deserialize wrap_transformer \<circ> serialize wrap_transformer = id
   \<and> \<not> falsy (serialize wrap_transformer (example_dehydrate example_server ()))
   \<and> useDehydratedState wrap_transformer
        (ssr_dehydrate wrap_transformer example_dehydrate example_server ())
     = example_dehydrate example_server ()
   \<and> useQuery never_stale example_client
        (example_hydrate (useDehydratedState wrap_transformer
           (ssr_dehydrate wrap_transformer example_dehydrate example_server ()))) user_get
     = (Inr (JStr ''ann''), False)"
proof -
  have rt: "\<forall>x. deserialize wrap_transformer (serialize wrap_transformer x) = x"
    by (simp add: wrap_transformer_def)
  have tr: "\<not> falsy (serialize wrap_transformer (example_dehydrate example_server ()))"
    by (simp add: wrap_transformer_def)
  have ok: "example_caller user_get = Inr (JStr ''ann'')"
    by (simp add: example_caller_def)
  have srv: "example_server = ssr_prefetchQuery example_caller Map.empty user_get"
    by (fact example_server_def)
  have fr: "\<not> never_stale (useQuery_cacheKey user_get)"
    by (simp add: never_stale_def)
  note th = dehydrate_roundtrip [where t = wrap_transformer and dehydrate = example_dehydrate
      and queryClient = example_server and opts = "()" and caller = example_caller
      and pa = user_get and v = "JStr ''ann''" and ?queryClient0.0 = Map.empty
      and hydrate = example_hydrate and stale = never_stale and client = example_client,
      OF rt tr]
  from th tr ok srv fr example_hydrate_dehydrate wrap_roundtrip show ?thesis
    by blast
qed

lemma ssr_fetchFn_caller: "ssr_fetchFn caller pa () = caller pa"
  by (simp add: ssr_fetchFn_def split: sum.splits)

text \<open>
  C9 (as stated, refuted): a failing direct call would always make the returned future
  reject. With a cache instance whose prefetch futures never reject, the direct call
  fails and both futures of the facade resolve.
\<close>

theorem ssr_prefetch_failure_counterexample:
  "failing_caller (''user.get'', [JObj (fmap_of_list [(''id'', JNum 7)])]) = Inl ''NOT_FOUND''
   \<and> ssr_prefetchQuery_future quiet_client failing_caller
        (''user.get'', [JObj (fmap_of_list [(''id'', JNum 7)])]) = Inr ()
   \<and> ssr_prefetchInfiniteQuery_future quiet_client failing_caller
        (''user.get'', [JObj (fmap_of_list [(''id'', JNum 7)])]) = Inr ()"
  by (simp add: failing_caller_def quiet_client_def ssr_prefetchQuery_future_def
      ssr_prefetchInfiniteQuery_future_def Let_def)

text \<open>
  C9 (amended): when the direct call fails, the fetch function that the facade hands to
  the cache fails with that failure, under the key of the corresponding client hook; the
  facade adds no handling of its own, so its future rejects with that failure whenever
  the prefetch future of the supplied cache instance rejects with the failure of its
  fetch function.
\<close>

theorem ssr_prefetch_failure:
  assumes "caller pa = Inl err"
  shows "ssr_fetchFn caller pa () = Inl err
         \<and> ssr_prefetchQuery_future queryClient caller pa
             = prefetchQuery queryClient (useQuery_cacheKey pa) (ssr_fetchFn caller pa)
         \<and> ssr_prefetchInfiniteQuery_future queryClient caller pa
             = prefetchInfiniteQuery queryClient (useInfiniteQuery_cacheKey pa)
                 (ssr_fetchFn caller pa)
         \<and> ((\<forall>key fetchFn e. fetchFn () = Inl e \<longrightarrow> prefetchQuery queryClient key fetchFn = Inl e)
              \<longrightarrow> ssr_prefetchQuery_future queryClient caller pa = Inl err)
         \<and> ((\<forall>key fetchFn e. fetchFn () = Inl e \<longrightarrow>
                 prefetchInfiniteQuery queryClient key fetchFn = Inl e)
              \<longrightarrow> ssr_prefetchInfiniteQuery_future queryClient caller pa = Inl err)"
proof -
  from assms have f: "ssr_fetchFn caller pa () = Inl err"
    by (simp add: ssr_fetchFn_caller)
  have q: "ssr_prefetchQuery_future queryClient caller pa
             = prefetchQuery queryClient (useQuery_cacheKey pa) (ssr_fetchFn caller pa)"
    by (simp add: ssr_prefetchQuery_future_def useQuery_cacheKey_def getCacheKey_def
        truthy_extras_def CACHE_KEY_QUERY_def Let_def)
  have i: "ssr_prefetchInfiniteQuery_future queryClient caller pa
             = prefetchInfiniteQuery queryClient (useInfiniteQuery_cacheKey pa)
                 (ssr_fetchFn caller pa)"
    by (simp add: ssr_prefetchInfiniteQuery_future_def useInfiniteQuery_cacheKey_def Let_def)
  from f q i show ?thesis
    by simp
qed

theorem ssr_prefetch_failure_witness:
  "failing_caller (''user.get'', [JObj (fmap_of_list [(''id'', JNum 7)])]) = Inl ''NOT_FOUND''
   \<and> ssr_prefetchQuery_future strict_client failing_caller
        (''user.get'', [JObj (fmap_of_list [(''id'', JNum 7)])]) = Inl ''NOT_FOUND''
   \<and> ssr_prefetchInfiniteQuery_future strict_client failing_caller
        (''user.get'', [JObj (fmap_of_list [(''id'', JNum 7)])]) = Inl ''NOT_FOUND''"
proof -
  have c: "failing_caller (''user.get'', [JObj (fmap_of_list [(''id'', JNum 7)])]) = Inl ''NOT_FOUND''"
    by (simp add: failing_caller_def)
  have p: "\<forall>key fetchFn e. fetchFn () = Inl e \<longrightarrow>
      prefetchQuery strict_client key fetchFn = Inl e"
    by (simp add: strict_client_def)
  have pi: "\<forall>key fetchFn e. fetchFn () = Inl e \<longrightarrow>
      prefetchInfiniteQuery strict_client key fetchFn = Inl e"
    by (simp add: strict_client_def)
  from ssr_prefetch_failure [where caller = failing_caller
      and pa = "(''user.get'', [JObj (fmap_of_list [(''id'', JNum 7)])])" and queryClient = strict_client, OF c]
    c p pi
  show ?thesis by blast
qed

section \<open>Properties of the subscription runner\<close>

lemma subscription_step_stopped:
  assumes "stopped s"
  shows "stopped (subscription_step opts s ev) \<and> calls (subscription_step opts s ev) = calls s"
  using assms
  by (cases ev) (simp_all add: cleanup_def on_fulfilled_def on_rejected_def)

lemma subscription_run_stopped:
  "stopped s \<Longrightarrow> calls (subscription_run opts s evs) = calls s"
  unfolding subscription_run_def
proof (induction evs arbitrary: s)
  case Nil
  then show ?case by simp
next
  case (Cons ev evs)
  from Cons.prems have st: "stopped (subscription_step opts s ev)"
    and cl: "calls (subscription_step opts s ev) = calls s"
    using subscription_step_stopped [of s opts ev] by simp_all
  from Cons.IH [OF st] cl show ?case by simp
qed

lemma subscription_delivers:
  "useSubscription_effect example_opts pa = Some s \<Longrightarrow>
     calls (subscription_run example_opts s [Fulfil d]) = [OnBatch d]
     \<and> calls (subscription_run example_opts s [Reject err]) = [OnError err]"
  by (auto simp: useSubscription_effect_def example_opts_def subscription_run_def
      on_fulfilled_def on_rejected_def split: if_splits)

text \<open>
  C1: for every subscription started by \<^verbatim>\<open>useSubscription\<close>, if the cleanup of the effect
  runs before the long-poll promise settles, the cleanup sets \<^verbatim>\<open>stopped\<close> and cancels the
  promise, both reactions return at once from then on, and whatever happens afterwards
  (the promise resolving or rejecting, at any time, any number of further events) neither
  \<^verbatim>\<open>onBatch\<close> nor \<^verbatim>\<open>onError\<close> is invoked.
\<close>

theorem useSubscription_no_stale_callback:
  assumes "useSubscription_effect opts pathAndArgs = Some s"
  shows "stopped (subscription_step opts s Cleanup)
         \<and> cancelled (subscription_step opts s Cleanup)
         \<and> on_fulfilled opts (subscription_step opts s Cleanup) d
             = (subscription_step opts s Cleanup, None)
         \<and> on_rejected opts (subscription_step opts s Cleanup) err
             = subscription_step opts s Cleanup
         \<and> calls (subscription_run opts s (Cleanup # evs)) = []"
proof -
  from assms have c0: "calls s = []"
    by (auto simp: useSubscription_effect_def split: if_splits)
  have st: "stopped (cleanup s)" and cc: "calls (cleanup s) = calls s"
    by (simp_all add: cleanup_def)
  have "subscription_run opts s (Cleanup # evs) = subscription_run opts (cleanup s) evs"
    by (simp add: subscription_run_def)
  with subscription_run_stopped [OF st, of opts evs] cc c0
  have "calls (subscription_run opts s (Cleanup # evs)) = []"
    by simp
  then show ?thesis
    by (simp add: cleanup_def on_fulfilled_def on_rejected_def)
qed

theorem useSubscription_no_stale_callback_witness:
  "useSubscription_effect example_opts (''msgs.new'', JNull) \<noteq> None
   \<and> calls (subscription_run example_opts
        (the (useSubscription_effect example_opts (''msgs.new'', JNull)))
        [Cleanup, Fulfil [JStr ''x''], Reject ''late'']) = []
   \<and> calls (subscription_run example_opts
        (the (useSubscription_effect example_opts (''msgs.new'', JNull)))
        [Fulfil [JStr ''x''], Cleanup]) = [OnBatch [JStr ''x'']]"
proof -
  have e: "useSubscription_effect example_opts (''msgs.new'', JNull)
      = Some (the (useSubscription_effect example_opts (''msgs.new'', JNull)))"
    by (simp add: useSubscription_effect_def example_opts_def)
  have d: "calls (subscription_run example_opts
        (the (useSubscription_effect example_opts (''msgs.new'', JNull)))
        [Fulfil [JStr ''x''], Cleanup]) = [OnBatch [JStr ''x'']]"
    by (simp add: useSubscription_effect_def example_opts_def subscription_run_def
        on_fulfilled_def cleanup_def)
  from useSubscription_no_stale_callback [OF e, where evs = "[Fulfil [JStr ''x''], Reject ''late'']"]
    d e
  show ?thesis
    by blast
qed

section \<open>Properties of the live-query loop\<close>

lemma live_inv_mount: "live_inv (useLiveQuery pa live_init)"
  by (simp add: live_inv_def useLiveQuery_def live_init_def qc_fetch_on_mount_def
      hook_refetch_def queryFn_def lastItem_def lastCursor_of_def Let_def)

lemma live_mount_state:
  "useLiveQuery pa live_init =
     \<lparr>currentCursor = None, hook_data = None, mounted = True, effect_deps = None,
      in_flight = 1, requests = [live_request_of pa (Some Null)], refetch_calls = 1,
      returned_data = None\<rparr>"
  by (simp add: useLiveQuery_def live_init_def qc_fetch_on_mount_def
      hook_refetch_def queryFn_def lastItem_def live_request_of_def Let_def)

lemma useLiveQuery_idle:
  assumes "live_inv s"
  shows "useLiveQuery pa s = s"
  using assms
  by (simp add: live_inv_def useLiveQuery_def qc_fetch_on_mount_def lastCursor_of_def Let_def)

lemma live_step_Resolve_same:
  assumes "live_inv s" "in_flight s = 1" "lastCursor_of (Some b) = currentCursor s"
  shows "live_step pa s (Resolve b) =
           s\<lparr>hook_data := Some b, in_flight := 0,
             returned_data := map_option data (lastItem (Some b))\<rparr>"
  using assms
  by (simp add: live_inv_def useLiveQuery_def qc_fetch_on_mount_def lastCursor_of_def Let_def)

lemma live_step_Resolve_changed:
  assumes "live_inv s" "in_flight s = 1" "lastCursor_of (Some b) \<noteq> currentCursor s"
  shows "live_step pa s (Resolve b) =
           s\<lparr>currentCursor := lastCursor_of (Some b), hook_data := Some b,
             effect_deps := lastCursor_of (Some b), in_flight := 1,
             requests := requests s @ [live_request_of pa (lastCursor_of (Some b))],
             refetch_calls := Suc (refetch_calls s),
             returned_data := map_option data (lastItem (Some b))\<rparr>"
  using assms
  by (simp add: live_inv_def useLiveQuery_def qc_fetch_on_mount_def lastCursor_of_def Let_def
      hook_refetch_def queryFn_def live_request_of_def)

lemma live_step_idle:
  assumes "in_flight s = 0"
  shows "live_step pa s (Resolve b) = s"
  using assms by simp

lemma live_inv_step:
  assumes "live_inv s"
  shows "live_inv (live_step pa s ev)"
proof (cases ev)
  case Rerender
  with assms show ?thesis by (simp add: useLiveQuery_idle)
next
  case (Resolve b)
  show ?thesis
  proof (cases "in_flight s = 0")
    case True
    with Resolve assms show ?thesis by simp
  next
    case False
    with assms have one: "in_flight s = 1" by (simp add: live_inv_def)
    show ?thesis
    proof (cases "lastCursor_of (Some b) = currentCursor s")
      case True
      from live_step_Resolve_same [OF assms one True, of pa] True assms Resolve
      show ?thesis by (simp add: live_inv_def)
    next
      case False
      from live_step_Resolve_changed [OF assms one False, of pa] assms Resolve
      show ?thesis by (simp add: live_inv_def)
    qed
  qed
qed

lemma live_run_snoc: "live_run pa (evs @ [ev]) = live_step pa (live_run pa evs) ev"
  by (simp add: live_run_def)

lemma live_inv_run: "live_inv (live_run pa evs)"
proof (induction evs rule: rev_induct)
  case Nil
  show ?case by (simp add: live_run_def live_inv_mount)
next
  case (snoc ev evs)
  then show ?case by (simp add: live_run_snoc live_inv_step)
qed



lemma live_run_batches:
  assumes "\<forall>b\<in>set bs. b \<noteq> []"
    and "distinct_adj (map (\<lambda>b. cursor (last b)) bs)"
  shows "requests (live_run pa (map Resolve bs))
           = map (live_request_of pa) (Some Null # map (\<lambda>b. Some (cursor (last b))) bs)
         \<and> in_flight (live_run pa (map Resolve bs)) = 1
         \<and> currentCursor (live_run pa (map Resolve bs))
           = (if bs = [] then None else Some (cursor (last (last bs))))
         \<and> returned_data (live_run pa (map Resolve bs))
           = (if bs = [] then None else Some (data (last (last bs))))"
  using assms
proof (induction bs rule: rev_induct)
  case Nil
  show ?case by (simp add: live_run_def live_mount_state)
next
  case (snoc b bs)
  let ?s = "live_run pa (map Resolve bs)"
  from snoc.prems have ne: "b \<noteq> []" and nes: "\<forall>b\<in>set bs. b \<noteq> []"
    by simp_all
  from snoc.prems(2) have da: "distinct_adj (map (\<lambda>b. cursor (last b)) bs)"
    by (simp add: distinct_adj_append_iff)
  from snoc.prems(2) have diff: "bs \<noteq> [] \<Longrightarrow> cursor (last (last bs)) \<noteq> cursor (last b)"
    by (simp add: distinct_adj_append_iff last_map)
  note IH = snoc.IH [OF nes da]
  have inv: "live_inv ?s" by (rule live_inv_run)
  from IH have one: "in_flight ?s = 1" by simp
  from ne have lc: "lastCursor_of (Some b) = Some (cursor (last b))"
    by (simp add: lastCursor_of_def lastItem_def)
  from ne have ld: "map_option data (lastItem (Some b)) = Some (data (last b))"
    by (simp add: lastItem_def)
  from IH diff lc have ch: "lastCursor_of (Some b) \<noteq> currentCursor ?s"
    by (auto split: if_splits)
  have run: "live_run pa (map Resolve (bs @ [b])) = live_step pa ?s (Resolve b)"
    by (simp add: live_run_snoc)
  from live_step_Resolve_changed [OF inv one ch, of pa] IH lc ld run
  show ?case by simp
qed


lemma distinct_imp_distinct_adj: "distinct xs \<Longrightarrow> distinct_adj xs"
  by (induction xs) (auto simp: distinct_adj_Cons)

lemma last_take_nth:
  assumes "0 < k" and "k \<le> length xs"
  shows "last (take k xs) = xs ! (k - 1)"
proof -
  from assms have "take k xs \<noteq> []" by auto
  then have "last (take k xs) = take k xs ! (length (take k xs) - 1)"
    by (rule last_conv_nth)
  with assms show ?thesis by simp
qed

text \<open>
  C2: when the server answers the long-polls of a mounted live query with non-empty
  batches whose last items carry strictly increasing cursors \<open>cs\<close> (the claim's
  \<open>[c1, c2, c3]\<close> is the case of three), then after the first \<open>k\<close> batches the loop has
  issued the initial long-poll, which carries the initial null cursor, and exactly one
  long-poll per cursor transition, each carrying the cursor just stored, merged into the
  input under the cursor field; and the data the hook returns is the payload of the last
  item of the latest batch.
\<close>

theorem live_query_increasing_cursors:
  fixes cs :: "'c::linorder list"
  assumes "sorted_wrt (<) cs"
    and "map (\<lambda>b. cursor (last b)) bs = map Val cs"
    and "\<forall>b\<in>set bs. b \<noteq> []"
    and "k \<le> length bs"
  shows "requests (live_run pa (map Resolve (take k bs)))
           = live_request_of pa (Some Null)
               # map (\<lambda>c. live_request_of pa (Some (Val c))) (take k cs)
         \<and> length (requests (live_run pa (map Resolve (take k bs)))) = Suc k
         \<and> (0 < k \<longrightarrow>
              returned_data (live_run pa (map Resolve (take k bs)))
                = Some (data (last (bs ! (k - 1)))))"
proof -
  let ?bs = "take k bs"
  from assms(2) have len: "length bs = length cs"
    using length_map by metis
  from assms(3) have ne: "\<forall>b\<in>set ?bs. b \<noteq> []"
    by (auto dest: in_set_takeD)
  from assms(2) have m: "map (\<lambda>b. cursor (last b)) ?bs = map Val (take k cs)"
    by (simp add: take_map [symmetric])
  from assms(1) have "distinct (take k cs)"
    using strict_sorted_iff distinct_take by blast
  then have "distinct_adj (map Val (take k cs))"
    by (intro distinct_adj_mapI distinct_imp_distinct_adj) (simp_all add: inj_on_def)
  with m have da: "distinct_adj (map (\<lambda>b. cursor (last b)) ?bs)"
    by simp
  note run = live_run_batches [OF ne da, of pa]
  from m have m': "map (\<lambda>b. Some (cursor (last b))) ?bs = map (\<lambda>c. Some (Val c)) (take k cs)"
  proof -
    have "map (\<lambda>b. Some (cursor (last b))) ?bs = map Some (map (\<lambda>b. cursor (last b)) ?bs)"
      by simp
    also have "\<dots> = map Some (map Val (take k cs))"
      by (simp only: m)
    finally show ?thesis by simp
  qed
  from run m' have r: "requests (live_run pa (map Resolve ?bs))
           = live_request_of pa (Some Null)
               # map (\<lambda>c. live_request_of pa (Some (Val c))) (take k cs)"
    by (simp add: comp_def)
  from r assms(4) len have l: "length (requests (live_run pa (map Resolve ?bs))) = Suc k"
    by simp
  have d: "returned_data (live_run pa (map Resolve ?bs)) = Some (data (last (bs ! (k - 1))))"
    if "0 < k"
  proof -
    from that assms(4) have "?bs \<noteq> []" by auto
    moreover from that assms(4) have "last ?bs = bs ! (k - 1)"
      by (rule last_take_nth)
    ultimately show ?thesis using run by simp
  qed
  from r l d show ?thesis by blast
qed



lemmas live_eval =
  live_run_def useLiveQuery_def live_init_def qc_fetch_on_mount_def hook_refetch_def
  queryFn_def lastItem_def lastCursor_of_def live_request_of_def item_def Let_def

theorem live_query_increasing_cursors_witness:
  "sorted_wrt (<) [1, 2, 3 :: int]
   \<and> requests (live_run msgs_list
        (map Resolve [[item 1 ''x''], [item 2 ''y''], [item 3 ''z'']]))
     = [live_request_of msgs_list (Some Null), live_request_of msgs_list (Some (Val 1)),
        live_request_of msgs_list (Some (Val 2)), live_request_of msgs_list (Some (Val 3))]
   \<and> returned_data (live_run msgs_list
        (map Resolve [[item 1 ''x''], [item 2 ''y''], [item 3 ''z'']])) = Some ''z''
   \<and> returned_data (live_run msgs_list
        (map Resolve (take 2 [[item 1 ''x''], [item 2 ''y''], [item 3 ''z'']]))) = Some ''y''"
proof -
  have h1: "sorted_wrt (<) [1, 2, 3 :: int]" by simp
  have h2: "map (\<lambda>b. cursor (last b)) [[item 1 ''x''], [item 2 ''y''], [item 3 ''z'']]
              = map Val [1, 2, 3]"
    by (simp add: item_def)
  have h3: "\<forall>b\<in>set [[item 1 ''x''], [item 2 ''y''], [item 3 ''z'']]. b \<noteq> []"
    by simp
  have k3: "(3::nat) \<le> length [[item 1 ''x''], [item 2 ''y''], [item 3 ''z'']]"
    and k2: "(2::nat) \<le> length [[item 1 ''x''], [item 2 ''y''], [item 3 ''z'']]"
    by simp_all
  from live_query_increasing_cursors [OF h1 h2 h3 k3, of msgs_list]
    live_query_increasing_cursors [OF h1 h2 h3 k2, of msgs_list] h1
  show ?thesis
    by (simp add: item_def)
qed


text \<open>
  C4 (as stated, refuted): an empty batch would never move the stored cursor nor continue
  the loop. After a first batch with cursor 1, an empty batch makes \<^verbatim>\<open>lastCursor\<close>
  undefined, which differs from 1: the effect runs, overwrites the stored cursor with
  undefined and issues a further long-poll.
\<close>

theorem live_empty_batch_counterexample:
  "currentCursor (live_run msgs_list [Resolve [item 1 ''x'']]) = Some (Val 1)
   \<and> in_flight (live_run msgs_list [Resolve [item 1 ''x'']]) = 1
   \<and> hook_data (live_run msgs_list [Resolve [item 1 ''x''], Resolve []]) = Some []
   \<and> currentCursor (live_run msgs_list [Resolve [item 1 ''x''], Resolve []]) = None
   \<and> requests (live_run msgs_list [Resolve [item 1 ''x''], Resolve []])
     = requests (live_run msgs_list [Resolve [item 1 ''x'']])
         @ [live_request_of msgs_list None]
   \<and> refetch_calls (live_run msgs_list [Resolve [item 1 ''x''], Resolve []])
     = Suc (refetch_calls (live_run msgs_list [Resolve [item 1 ''x'']]))
   \<and> in_flight (live_run msgs_list [Resolve [item 1 ''x''], Resolve []]) = 1"
  by (simp add: live_eval)

text \<open>
  C4 (amended): when the most recent batch is empty or no batch has loaded yet,
  \<^verbatim>\<open>lastItem\<close> and the returned data are undefined. In a mounted live query whose
  current batch is empty or absent, a render changes nothing, and the arrival of an empty
  batch leaves the stored cursor as it is, calls no \<^verbatim>\<open>hook.refetch()\<close>, issues no
  long-poll and leaves none in flight: the loop stalls.
\<close>

theorem live_empty_batch_stalls:
  "lastItem None = None \<and> lastItem (Some []) = None
   \<and> (hook_data (live_run pa evs) = None \<or> hook_data (live_run pa evs) = Some [] \<longrightarrow>
        returned_data (live_run pa evs) = None
        \<and> live_step pa (live_run pa evs) Rerender = live_run pa evs
        \<and> returned_data (live_step pa (live_run pa evs) (Resolve [])) = None
        \<and> currentCursor (live_step pa (live_run pa evs) (Resolve []))
            = currentCursor (live_run pa evs)
        \<and> requests (live_step pa (live_run pa evs) (Resolve [])) = requests (live_run pa evs)
        \<and> refetch_calls (live_step pa (live_run pa evs) (Resolve []))
            = refetch_calls (live_run pa evs)
        \<and> in_flight (live_step pa (live_run pa evs) (Resolve [])) = 0)"
proof -
  let ?s = "live_run pa evs"
  have inv: "live_inv ?s" by (rule live_inv_run)
  have li: "lastItem None = None" "lastItem (Some []) = None"
    by (simp_all add: lastItem_def)
  have stall: "returned_data ?s = None
        \<and> live_step pa ?s Rerender = ?s
        \<and> returned_data (live_step pa ?s (Resolve [])) = None
        \<and> currentCursor (live_step pa ?s (Resolve [])) = currentCursor ?s
        \<and> requests (live_step pa ?s (Resolve [])) = requests ?s
        \<and> refetch_calls (live_step pa ?s (Resolve [])) = refetch_calls ?s
        \<and> in_flight (live_step pa ?s (Resolve [])) = 0"
    if e: "hook_data ?s = None \<or> hook_data ?s = Some []"
  proof -
    from e have no: "lastItem (hook_data ?s) = None"
      by (auto simp: lastItem_def)
    with inv have rd: "returned_data ?s = None" and cc: "currentCursor ?s = None"
      by (simp_all add: live_inv_def lastCursor_of_def)
    from cc have same: "lastCursor_of (Some []) = currentCursor ?s"
      by (simp add: lastCursor_of_def lastItem_def)
    have rr: "live_step pa ?s Rerender = ?s"
      using inv by (simp add: useLiveQuery_idle)
    show ?thesis
    proof (cases "in_flight ?s = 0")
      case True
      with rd rr show ?thesis by simp
    next
      case False
      with inv have one: "in_flight ?s = 1" by (simp add: live_inv_def)
      from live_step_Resolve_same [OF inv one same, of pa] rd rr
      show ?thesis by (simp add: lastItem_def)
    qed
  qed
  from li stall show ?thesis by blast
qed

theorem live_empty_batch_stalls_witness:
  "hook_data (live_run msgs_list ([] :: (string, int) live_event list)) = None
   \<and> requests (live_run msgs_list ([] :: (string, int) live_event list))
     = [live_request_of msgs_list (Some Null)]
   \<and> returned_data (live_step msgs_list (live_run msgs_list [])
        (Resolve ([] :: (string, int) OutputWithCursor list))) = None
   \<and> requests (live_step msgs_list (live_run msgs_list [])
        (Resolve ([] :: (string, int) OutputWithCursor list)))
     = requests (live_run msgs_list ([] :: (string, int) live_event list))
   \<and> in_flight (live_step msgs_list (live_run msgs_list [])
        (Resolve ([] :: (string, int) OutputWithCursor list))) = 0"
proof -
  have h: "hook_data (live_run msgs_list ([] :: (string, int) live_event list)) = None"
    by (simp add: live_eval)
  have r: "requests (live_run msgs_list ([] :: (string, int) live_event list))
      = [live_request_of msgs_list (Some Null)]"
    by (simp add: live_eval)
  from live_empty_batch_stalls [of msgs_list "[] :: (string, int) live_event list"] h r
  show ?thesis by blast
qed

end
